theory Spec2Isabelle
  imports Main
begin

section \<open>Python values: strings, bytes, exceptions, JSON\<close>

text \<open>A Python \<open>str\<close> is a sequence of Unicode code points; a \<open>bytes\<close> object is a sequence
  of 8-bit values, for which the type \<open>char\<close> of HOL is used.  The function \<open>str\<close> writes an
  ASCII literal as a Python string.\<close>

type_synonym bytes = "char list"

type_synonym pystr = "nat list"

datatype json =
    JNull
  | JBool bool
  | JInt int
  | JFloat pystr
  | JConst pystr
  | JString pystr
  | JArray "json list"
  | JObject "(pystr \<times> json) list"

definition str :: "string \<Rightarrow> pystr" where
  "str cs = map of_char cs"

text \<open>The exceptions that the code can meet.  \<open>StreamConsumedError\<close>,
  \<open>RequestsConnectionError\<close> and \<open>RequestsTimeout\<close> are subclasses of
  \<open>RequestException\<close> in the HTTP library; \<open>OSError\<close> stands for an exception outside
  that hierarchy.\<close>

datatype exn =
    UnicodeDecodeError
  | JSONDecodeError
  | KeyError
  | TypeError
  | StreamConsumedError
  | RequestsConnectionError
  | RequestsTimeout
  | RequestException
  | OSError

definition is_StreamConsumedError :: "exn \<Rightarrow> bool" where
  "is_StreamConsumedError e \<longleftrightarrow> e = StreamConsumedError"

definition is_RequestException :: "exn \<Rightarrow> bool" where
  "is_RequestException e \<longleftrightarrow>
     e = RequestException \<or> e = StreamConsumedError \<or> e = RequestsConnectionError \<or> e = RequestsTimeout"

subsection \<open>\<open>bytes.decode('utf-8')\<close>\<close>

definition is_cont :: "nat \<Rightarrow> bool" where
  "is_cont b \<longleftrightarrow> 128 \<le> b \<and> b \<le> 191"

text \<open>Strict UTF-8: no overlong forms, no surrogates, nothing above U+10FFFF.\<close>
fun utf8_decode :: "nat list \<Rightarrow> pystr option" where
  "utf8_decode [] = Some []"
| "utf8_decode (b0 # r) =
     (if b0 < 128 then map_option ((#) b0) (utf8_decode r)
      else if 194 \<le> b0 \<and> b0 \<le> 223 then
        (case r of
           b1 # r1 \<Rightarrow>
             if is_cont b1 then map_option ((#) ((b0 - 192) * 64 + (b1 - 128))) (utf8_decode r1)
             else None
         | _ \<Rightarrow> None)
      else if 224 \<le> b0 \<and> b0 \<le> 239 then
        (case r of
           b1 # b2 # r2 \<Rightarrow>
             if is_cont b1 \<and> is_cont b2 \<and> (b0 = 224 \<longrightarrow> 160 \<le> b1) \<and> (b0 = 237 \<longrightarrow> b1 \<le> 159) then
               map_option ((#) (((b0 - 224) * 64 + (b1 - 128)) * 64 + (b2 - 128))) (utf8_decode r2)
             else None
         | _ \<Rightarrow> None)
      else if 240 \<le> b0 \<and> b0 \<le> 244 then
        (case r of
           b1 # b2 # b3 # r3 \<Rightarrow>
             if is_cont b1 \<and> is_cont b2 \<and> is_cont b3 \<and> (b0 = 240 \<longrightarrow> 144 \<le> b1)
                \<and> (b0 = 244 \<longrightarrow> b1 \<le> 143) then
               map_option ((#) ((((b0 - 240) * 64 + (b1 - 128)) * 64 + (b2 - 128)) * 64 + (b3 - 128)))
                 (utf8_decode r3)
             else None
         | _ \<Rightarrow> None)
      else None)"

definition bytes_decode :: "bytes \<Rightarrow> exn + pystr" where
  "bytes_decode bs =
     (case utf8_decode (map of_char bs) of
        None \<Rightarrow> Inl UnicodeDecodeError
      | Some s \<Rightarrow> Inr s)"

definition startswith :: "pystr \<Rightarrow> pystr \<Rightarrow> bool" where
  "startswith s p \<longleftrightarrow> take (length p) s = p"

subsection \<open>\<open>json.loads\<close>\<close>

text \<open>The decoder of the standard library, in its default configuration: strict strings,
  the constants \<open>NaN\<close>, \<open>Infinity\<close> and \<open>-Infinity\<close> accepted, a dictionary built from the
  pairs of an object (the pairs are kept in order; \<open>getitem\<close> reads the last pair of a key,
  as \<open>dict(pairs)\<close> does).  Digits are the ASCII digits and a \<open>\u\<close> escape has four
  hexadecimal digits, as in the compiled scanner that the interpreter uses.  A float keeps its
  text: its value is never looked at.  The limits of the interpreter on the depth of nesting
  and on the number of digits of an integer are not part of the model.  In the functions of
  the decoder \<open>None\<close> is \<open>JSONDecodeError\<close>.\<close>

definition is_ws :: "nat \<Rightarrow> bool" where
  "is_ws c \<longleftrightarrow> c = 32 \<or> c = 9 \<or> c = 10 \<or> c = 13"

definition skip_ws :: "pystr \<Rightarrow> pystr" where
  "skip_ws s = dropWhile is_ws s"

definition hex_digit :: "nat \<Rightarrow> nat option" where
  "hex_digit c =
     (if 48 \<le> c \<and> c \<le> 57 then Some (c - 48)
      else if 97 \<le> c \<and> c \<le> 102 then Some (c - 87)
      else if 65 \<le> c \<and> c \<le> 70 then Some (c - 55)
      else None)"

fun decode_uXXXX :: "pystr \<Rightarrow> nat option" where
  "decode_uXXXX (a # b # c # d # r) =
     (case (hex_digit a, hex_digit b, hex_digit c, hex_digit d) of
        (Some x, Some y, Some z, Some w) \<Rightarrow> Some (((x * 16 + y) * 16 + z) * 16 + w)
      | _ \<Rightarrow> None)"
| "decode_uXXXX _ = None"

definition backslash :: "nat \<Rightarrow> nat option" where
  "backslash e =
     (if e = 34 then Some 34
      else if e = 92 then Some 92
      else if e = 47 then Some 47
      else if e = 98 then Some 8
      else if e = 102 then Some 12
      else if e = 110 then Some 10
      else if e = 114 then Some 13
      else if e = 116 then Some 9
      else None)"

fun scanstring :: "pystr \<Rightarrow> (pystr \<times> pystr) option" where
  "scanstring [] = None"
| "scanstring (c # r) =
     (if c = 34 then Some ([], r)
      else if c = 92 then
        (case r of
           [] \<Rightarrow> None
         | e # r1 \<Rightarrow>
             if e = 117 then
               (case decode_uXXXX r1 of
                  None \<Rightarrow> None
                | Some uni \<Rightarrow>
                    let r2 = drop 4 r1 in
                    if 55296 \<le> uni \<and> uni \<le> 56319 \<and> take 2 r2 = [92, 117] then
                      (case decode_uXXXX (drop 2 r2) of
                         None \<Rightarrow> None
                       | Some uni2 \<Rightarrow>
                           if 56320 \<le> uni2 \<and> uni2 \<le> 57343 then
                             map_option (\<lambda>(t, rest). ((65536 + ((uni - 55296) * 1024 + (uni2 - 56320))) # t, rest))
                               (scanstring (drop 6 r2))
                           else map_option (\<lambda>(t, rest). (uni # t, rest)) (scanstring r2))
                    else map_option (\<lambda>(t, rest). (uni # t, rest)) (scanstring r2))
             else
               (case backslash e of
                  None \<Rightarrow> None
                | Some ch \<Rightarrow> map_option (\<lambda>(t, rest). (ch # t, rest)) (scanstring r1)))
      else if c < 32 then None
      else map_option (\<lambda>(t, rest). (c # t, rest)) (scanstring r))"

lemma scanstring_shorter: "scanstring s = Some (t, r) \<Longrightarrow> length r < length s"
proof (induction s arbitrary: t r rule: scanstring.induct)
  case 1
  then show ?case by simp
next
  case (2 c r0)
  then show ?case
    by (auto simp: Let_def split: if_splits list.splits option.splits) (force+)?
qed


definition is_digit :: "nat \<Rightarrow> bool" where
  "is_digit c \<longleftrightarrow> 48 \<le> c \<and> c \<le> 57"

definition digits_value :: "pystr \<Rightarrow> int" where
  "digits_value ds = foldl (\<lambda>n c. n * 10 + (int c - 48)) 0 ds"

text \<open>The integer part of the number pattern: an optional minus sign, then either a single
  zero or a non-zero digit followed by any digits.  Returns the matched text and the rest.\<close>
definition match_integer :: "pystr \<Rightarrow> (pystr \<times> pystr) option" where
  "match_integer s =
     (let (sign, r) = (case s of c # r \<Rightarrow> if c = 45 then ([c], r) else ([], s) | [] \<Rightarrow> ([], s)) in
      case r of
        [] \<Rightarrow> None
      | d # r1 \<Rightarrow>
          if d = 48 then Some (sign @ [d], r1)
          else if is_digit d then Some (sign @ d # takeWhile is_digit r1, dropWhile is_digit r1)
          else None)"

definition match_frac :: "pystr \<Rightarrow> pystr \<times> pystr" where
  "match_frac s =
     (case s of
        c # r \<Rightarrow>
          if c = 46 \<and> takeWhile is_digit r \<noteq> [] then (c # takeWhile is_digit r, dropWhile is_digit r)
          else ([], s)
      | [] \<Rightarrow> ([], s))"

definition match_exp :: "pystr \<Rightarrow> pystr \<times> pystr" where
  "match_exp s =
     (case s of
        c # r \<Rightarrow>
          if c = 101 \<or> c = 69 then
            (let (sg, r1) = (case r of x # r1 \<Rightarrow> if x = 45 \<or> x = 43 then ([x], r1) else ([], r) | [] \<Rightarrow> ([], r)) in
             if takeWhile is_digit r1 \<noteq> [] then (c # sg @ takeWhile is_digit r1, dropWhile is_digit r1)
             else ([], s))
          else ([], s)
      | [] \<Rightarrow> ([], s))"

definition match_number :: "pystr \<Rightarrow> (json \<times> pystr) option" where
  "match_number s =
     (case match_integer s of
        None \<Rightarrow> None
      | Some (integer, r) \<Rightarrow>
          let (frac, r1) = match_frac r; (ex, r2) = match_exp r1 in
          if frac \<noteq> [] \<or> ex \<noteq> [] then Some (JFloat (integer @ frac @ ex), r2)
          else Some (JInt (case integer of c # ds \<Rightarrow> if c = 45 then - digits_value ds else digits_value integer
                                        | [] \<Rightarrow> 0), r2))"

lemma skip_ws_le: "length (skip_ws s) \<le> length s"
  by (simp add: skip_ws_def length_dropWhile_le)

lemma skip_ws_Cons_lt: "skip_ws s = x # r \<Longrightarrow> length r < length s"
  using skip_ws_le [of s] by simp

function (sequential) scan_once :: "pystr \<Rightarrow> (json \<times> pystr) option"
  and JSONObject :: "pystr \<Rightarrow> (pystr \<times> json) list \<Rightarrow> (json \<times> pystr) option"
  and JSONArray :: "pystr \<Rightarrow> json list \<Rightarrow> (json \<times> pystr) option"
where
  "scan_once [] = None"
| "scan_once (c # r) =
     (if c = 34 then map_option (\<lambda>(t, rest). (JString t, rest)) (scanstring r)
      else if c = 123 then
        (case skip_ws r of
           [] \<Rightarrow> None
         | x # r1 \<Rightarrow>
             if x = 125 then Some (JObject [], r1)
             else if x = 34 then JSONObject r1 []
             else None)
      else if c = 91 then
        (case skip_ws r of
           [] \<Rightarrow> None
         | x # r1 \<Rightarrow>
             if x = 93 then Some (JArray [], r1)
             else JSONArray (x # r1) [])
      else if c = 110 \<and> take 4 (c # r) = str ''null'' then Some (JNull, drop 3 r)
      else if c = 116 \<and> take 4 (c # r) = str ''true'' then Some (JBool True, drop 3 r)
      else if c = 102 \<and> take 5 (c # r) = str ''false'' then Some (JBool False, drop 4 r)
      else
        (case match_number (c # r) of
           Some res \<Rightarrow> Some res
         | None \<Rightarrow>
             if c = 78 \<and> take 3 (c # r) = str ''NaN'' then Some (JConst (str ''NaN''), drop 2 r)
             else if c = 73 \<and> take 8 (c # r) = str ''Infinity'' then Some (JConst (str ''Infinity''), drop 7 r)
             else if c = 45 \<and> take 9 (c # r) = str ''-Infinity'' then Some (JConst (str ''-Infinity''), drop 8 r)
             else None))"
| "JSONObject s pairs =
     (case scanstring s of
        None \<Rightarrow> None
      | Some (key, r) \<Rightarrow>
          (case skip_ws r of
             [] \<Rightarrow> None
           | x # r1 \<Rightarrow>
               if x \<noteq> 58 then None
               else
                 (case scan_once (skip_ws r1) of
                    None \<Rightarrow> None
                  | Some (v, r2) \<Rightarrow>
                      if length r2 < length (skip_ws r1) then
                        (case skip_ws r2 of
                           [] \<Rightarrow> None
                         | y # r3 \<Rightarrow>
                             if y = 125 then Some (JObject (pairs @ [(key, v)]), r3)
                             else if y \<noteq> 44 then None
                             else
                               (case skip_ws r3 of
                                  [] \<Rightarrow> None
                                | z # r4 \<Rightarrow>
                                    if z \<noteq> 34 then None
                                    else JSONObject r4 (pairs @ [(key, v)])))
                      else None)))"
| "JSONArray s vals =
     (case scan_once s of
        None \<Rightarrow> None
      | Some (v, r) \<Rightarrow>
          if length r < length s then
            (case skip_ws r of
               [] \<Rightarrow> None
             | y # r1 \<Rightarrow>
                 if y = 93 then Some (JArray (vals @ [v]), r1)
                 else if y \<noteq> 44 then None
                 else JSONArray (skip_ws r1) (vals @ [v]))
          else None)"
  by pat_completeness auto

termination
  apply (relation "measure (\<lambda>x. case x of
            Inl s \<Rightarrow> 2 * length s
          | Inr (Inl (s, _)) \<Rightarrow> 2 * length s + 1
          | Inr (Inr (s, _)) \<Rightarrow> 2 * length s + 1)")
  apply simp
  subgoal for c r x r1 using skip_ws_Cons_lt [of r x r1] by simp
  subgoal for c r x r1 using skip_ws_Cons_lt [of r x r1] by simp
  subgoal for s pairs a key r x r1
    using scanstring_shorter [of s key r] skip_ws_Cons_lt [of r x r1] skip_ws_le [of r1] by simp
  subgoal for s pairs a key r x r1 b v r2 y r3 z r4
    using scanstring_shorter [of s key r] skip_ws_Cons_lt [of r x r1] skip_ws_le [of r1]
      skip_ws_Cons_lt [of r2 y r3] skip_ws_Cons_lt [of r3 z r4] by simp
  subgoal by simp
  subgoal for s vals a v r y r1
    using skip_ws_Cons_lt [of r y r1] skip_ws_le [of r1] by simp
  done


definition json_decode :: "pystr \<Rightarrow> json option" where
  "json_decode s =
     (case scan_once (skip_ws s) of
        None \<Rightarrow> None
      | Some (obj, r) \<Rightarrow> if skip_ws r = [] then Some obj else None)"

definition json_loads :: "pystr \<Rightarrow> exn + json" where
  "json_loads s =
     (if startswith s [65279] then Inl JSONDecodeError
      else case json_decode s of None \<Rightarrow> Inl JSONDecodeError | Some obj \<Rightarrow> Inr obj)"

text \<open>Subscription \<open>obj[key]\<close> with a string key: a dictionary looks the key up, every other
  JSON value raises \<open>TypeError\<close>.\<close>
definition getitem :: "json \<Rightarrow> pystr \<Rightarrow> exn + json" where
  "getitem obj key =
     (case obj of
        JObject pairs \<Rightarrow> (case map_of (rev pairs) key of None \<Rightarrow> Inl KeyError | Some v \<Rightarrow> Inr v)
      | _ \<Rightarrow> Inl TypeError)"

text \<open>\<open>"".join(items)\<close> on a list: every item must be a string.\<close>
fun str_join :: "json list \<Rightarrow> exn + pystr" where
  "str_join [] = Inr []"
| "str_join (item # items) =
     (case str_join items of
        Inl e \<Rightarrow> Inl e
      | Inr t \<Rightarrow> (case item of JString s \<Rightarrow> Inr (s @ t) | _ \<Rightarrow> Inl TypeError))"

text \<open>\<open>full_response += content\<close> on a string \<open>full_response\<close>.\<close>
definition str_iadd :: "pystr \<Rightarrow> json \<Rightarrow> exn + pystr" where
  "str_iadd full_response content =
     (case content of JString s \<Rightarrow> Inr (full_response @ s) | _ \<Rightarrow> Inl TypeError)"

section \<open>The response and its parser (\<open>conversation/client.py\<close>)\<close>

text \<open>A response of the HTTP library, as far as the code uses it: the lines that
  \<open>iter_lines\<close> has not delivered yet, what \<open>close\<close> raises (if anything), and how often
  \<open>close\<close> has been called.  The lines are a finite list; a failure of the transport while
  the body is being read is not part of the model.\<close>

record response =
  unread :: "bytes list"
  close_error :: "exn option"
  close_calls :: nat

definition content_prefix :: pystr where
  \<open>content_prefix = str ''{"type": "content", "content":''\<close>

text \<open>The body of the loop for one line: the line is passed over, a value is extracted
  from it, or an exception is raised.\<close>

datatype line_outcome = Skipped | Extracted json | Failed exn

definition extract_content :: "bytes \<Rightarrow> line_outcome" where
  "extract_content line =
     (if line = [] then Skipped
      else case bytes_decode line of
        Inl e \<Rightarrow> Failed e
      | Inr decoded_line \<Rightarrow>
          if startswith decoded_line content_prefix then
            (case json_loads decoded_line of
               Inl e \<Rightarrow> Failed e
             | Inr obj \<Rightarrow>
                 (case getitem obj (str ''content'') of
                    Inl e \<Rightarrow> Failed e
                  | Inr content \<Rightarrow> Extracted content))
          else Skipped)"

text \<open>One resumption of the generator \<open>parse_chunks\<close>: it reads lines until it yields a
  value, raises, or runs out of lines.  The second component is what is left unread.\<close>

datatype 'a step = Yield 'a | StopIteration | Raise exn

fun parse_chunks :: "bytes list \<Rightarrow> json step \<times> bytes list" where
  "parse_chunks [] = (StopIteration, [])"
| "parse_chunks (line # rest) =
     (case extract_content line of
        Skipped \<Rightarrow> parse_chunks rest
      | Extracted content \<Rightarrow> (Yield content, rest)
      | Failed e \<Rightarrow> (Raise e, rest))"

text \<open>A generator object: the response it reads from and whether it has finished (returned,
  raised, or been closed).\<close>

record generator =
  gen_response :: response
  gen_finished :: bool

definition gen_next :: "generator \<Rightarrow> json step \<times> generator" where
  "gen_next g =
     (if gen_finished g then (StopIteration, g)
      else
        (case parse_chunks (unread (gen_response g)) of
           (Yield v, rest) \<Rightarrow> (Yield v, g\<lparr>gen_response := (gen_response g)\<lparr>unread := rest\<rparr>\<rparr>)
         | (st, rest) \<Rightarrow>
             (st, g\<lparr>gen_response := (gen_response g)\<lparr>unread := rest\<rparr>, gen_finished := True\<rparr>)))"

lemma parse_chunks_shorter: "parse_chunks ls = (Yield v, rest) \<Longrightarrow> length rest < length ls"
  by (induction ls) (auto split: line_outcome.splits)

text \<open>Running a generator to its end, as \<open>"".join\<close> does before it looks at the items.\<close>
function list_gen :: "generator \<Rightarrow> (exn + json list) \<times> generator" where
  "list_gen g =
     (case gen_next g of
        (Yield v, g') \<Rightarrow>
          (case list_gen g' of
             (Inl e, g'') \<Rightarrow> (Inl e, g'')
           | (Inr items, g'') \<Rightarrow> (Inr (v # items), g''))
      | (StopIteration, g') \<Rightarrow> (Inr [], g')
      | (Raise e, g') \<Rightarrow> (Inl e, g'))"
  by pat_completeness auto
termination
proof (relation "measure (\<lambda>g. length (unread (gen_response g)))")
  show "wf (measure (\<lambda>g. length (unread (gen_response g))))" by simp
next
  fix g :: generator and x v g'
  assume "(x, g') = gen_next g" "x = Yield v"
  then show "(g', g) \<in> measure (\<lambda>g. length (unread (gen_response g)))"
    by (auto simp: gen_next_def dest: parse_chunks_shorter split: prod.splits step.splits if_splits)
qed

datatype pyresult = Returned_str pystr | Returned_gen generator | Raised exn

definition parse_response :: "response \<Rightarrow> bool \<Rightarrow> pyresult \<times> response" where
  "parse_response response chunked =
     (if chunked then (Returned_gen \<lparr>gen_response = response, gen_finished = False\<rparr>, response)
      else
        (case list_gen \<lparr>gen_response = response, gen_finished = False\<rparr> of
           (Inl e, g) \<Rightarrow> (Raised e, gen_response g)
         | (Inr items, g) \<Rightarrow>
             (case str_join items of
                Inl e \<Rightarrow> (Raised e, gen_response g)
              | Inr s \<Rightarrow> (Returned_str s, gen_response g))))"

text \<open>\<open>Response.close\<close>: every call is counted; it may raise.\<close>
definition response_close :: "response \<Rightarrow> exn option \<times> response" where
  "response_close r = (close_error r, r\<lparr>close_calls := close_calls r + 1\<rparr>)"

section \<open>The older parser (\<open>app.py\<close>)\<close>

text \<open>The loop of \<open>ResponseParser.parse_response\<close> in \<open>app.py\<close>, with the accumulator
  \<open>full_response\<close>.  The test on a line and the extraction are the same text as in
  \<open>conversation/client.py\<close>.\<close>

fun app_parse_loop :: "bytes list \<Rightarrow> pystr \<Rightarrow> (exn + pystr) \<times> bytes list" where
  "app_parse_loop [] full_response = (Inr full_response, [])"
| "app_parse_loop (line # rest) full_response =
     (case extract_content line of
        Skipped \<Rightarrow> app_parse_loop rest full_response
      | Extracted content \<Rightarrow>
          (case str_iadd full_response content of
             Inl e \<Rightarrow> (Inl e, rest)
           | Inr full_response' \<Rightarrow> app_parse_loop rest full_response')
      | Failed e \<Rightarrow> (Inl e, rest))"

definition app_parse_response :: "response \<Rightarrow> pyresult \<times> response" where
  "app_parse_response response =
     (case app_parse_loop (unread response) [] of
        (Inl e, rest) \<Rightarrow> (Raised e, response\<lparr>unread := rest\<rparr>)
      | (Inr full_response, rest) \<Rightarrow> (Returned_str full_response, response\<lparr>unread := rest\<rparr>))"

section \<open>The request and the call (\<open>conversation/client.py\<close>)\<close>

record http_request =
  req_url :: pystr
  req_json :: json
  req_stream :: bool
  req_timeout :: nat

text \<open>The network: what the server answers to a request (a response, or an exception of the
  HTTP library when no response arrives), and the requests posted so far.\<close>

record world =
  server :: "http_request \<Rightarrow> exn + response"
  requests_sent :: "http_request list"

definition requests_post :: "world \<Rightarrow> http_request \<Rightarrow> (exn + response) \<times> world" where
  "requests_post w req = (server w req, w\<lparr>requests_sent := requests_sent w @ [req]\<rparr>)"

definition send_request :: "world \<Rightarrow> pystr \<Rightarrow> json \<Rightarrow> nat \<Rightarrow> (exn + response) \<times> world" where
  "send_request w base_url data timeout =
     (let url = base_url @ str ''/backend-api/v2/conversation'' in
      requests_post w \<lparr>req_url = url, req_json = data, req_stream = True, req_timeout = timeout\<rparr>)"

record call_outcome =
  result :: pyresult
  response_after :: "response option"
  world_after :: world

definition enter_prompt ::
  "world \<Rightarrow> pystr \<Rightarrow> pystr \<Rightarrow> pystr \<Rightarrow> bool \<Rightarrow> pystr \<Rightarrow> bool \<Rightarrow> pystr option \<Rightarrow> bool \<Rightarrow> call_outcome"
where
  "enter_prompt w base_url prompt model web_search provider auto_continue api_key chunked =
     (let data = JObject
            [(str ''model'', JString model),
             (str ''web_search'', JBool web_search),
             (str ''provider'', JString provider),
             (str ''messages'',
                JArray [JObject [(str ''role'', JString (str ''user'')), (str ''content'', JString prompt)]]),
             (str ''auto_continue'', JBool auto_continue),
             (str ''api_key'', (case api_key of None \<Rightarrow> JNull | Some k \<Rightarrow> JString k))]
      in
      case send_request w base_url data 30 of
        (Inl e, w') \<Rightarrow> \<lparr>result = Raised e, response_after = None, world_after = w'\<rparr>
      | (Inr response, w') \<Rightarrow>
          (case parse_response response chunked of
             (Raised e, response') \<Rightarrow>
               \<lparr>result = Raised e, response_after = Some response', world_after = w'\<rparr>
           | (parsed_response, response') \<Rightarrow>
               if \<not> chunked then
                 (case response_close response' of
                    (None, response'') \<Rightarrow>
                      \<lparr>result = parsed_response, response_after = Some response'', world_after = w'\<rparr>
                  | (Some e, response'') \<Rightarrow>
                      if is_StreamConsumedError e then
                        \<lparr>result = parsed_response, response_after = Some response'', world_after = w'\<rparr>
                      else if is_RequestException e then
                        \<lparr>result = parsed_response, response_after = Some response'', world_after = w'\<rparr>
                      else \<lparr>result = Raised e, response_after = Some response'', world_after = w'\<rparr>)
               else \<lparr>result = parsed_response, response_after = Some response', world_after = w'\<rparr>))"

section \<open>Fragments of a stream\<close>

text \<open>The content-event fragments of a stream, in arrival order: the values that the
  parser's test and extraction find, line by line.\<close>

definition content_fragments :: "bytes list \<Rightarrow> json list" where
  "content_fragments ls =
     List.map_filter (\<lambda>l. case extract_content l of Extracted c \<Rightarrow> Some c | _ \<Rightarrow> None) ls"

text \<open>A line the parser passes over, and a stream none of whose lines raises.\<close>

definition skipped :: "bytes \<Rightarrow> bool" where
  "skipped l \<longleftrightarrow> extract_content l = Skipped"

definition fails :: "bytes \<Rightarrow> bool" where
  "fails l \<longleftrightarrow> (case extract_content l of Failed e \<Rightarrow> True | _ \<Rightarrow> False)"

definition well_formed :: "bytes list \<Rightarrow> bool" where
  "well_formed ls \<longleftrightarrow> list_all (\<lambda>l. \<not> fails l) ls"

text \<open>The generator run to its end, by recursion on the unread lines.\<close>

fun drain :: "bytes list \<Rightarrow> (exn + json list) \<times> bytes list" where
  "drain [] = (Inr [], [])"
| "drain (l # ls) =
     (case extract_content l of
        Skipped \<Rightarrow> drain ls
      | Extracted c \<Rightarrow>
          (case drain ls of
             (Inl e, rest) \<Rightarrow> (Inl e, rest)
           | (Inr items, rest) \<Rightarrow> (Inr (c # items), rest))
      | Failed e \<Rightarrow> (Inl e, ls))"

text \<open>\<open>n\<close> successive calls of \<open>next\<close> on a generator: what each call gave, and the generator
  afterwards.\<close>
fun gen_run :: "nat \<Rightarrow> generator \<Rightarrow> json step list \<times> generator" where
  "gen_run 0 g = ([], g)"
| "gen_run (Suc n) g =
     (case gen_next g of
        (st, g') \<Rightarrow> (case gen_run n g' of (sts, g'') \<Rightarrow> (st # sts, g'')))"

text \<open>What a fresh generator gives before it stops, by recursion on the lines.\<close>
fun yields :: "bytes list \<Rightarrow> json step list" where
  "yields [] = []"
| "yields (l # ls) =
     (case extract_content l of
        Skipped \<Rightarrow> yields ls
      | Extracted c \<Rightarrow> Yield c # yields ls
      | Failed e \<Rightarrow> [Raise e])"

text \<open>\<open>inserted ls ls'\<close>: the stream \<open>ls'\<close> is \<open>ls\<close> with any number of lines that the parser
  passes over put in at any places.\<close>
fun inserted :: "bytes list \<Rightarrow> bytes list \<Rightarrow> bool" where
  "inserted [] ls' = list_all skipped ls'"
| "inserted (x # xs) [] = False"
| "inserted (x # xs) (y # ys) = ((x = y \<and> inserted xs ys) \<or> (skipped y \<and> inserted (x # xs) ys))"

section \<open>The request that a call posts\<close>

text \<open>The request that \<open>enter_prompt\<close> hands to the HTTP library, written out.\<close>

definition posted_request ::
  "pystr \<Rightarrow> pystr \<Rightarrow> pystr \<Rightarrow> bool \<Rightarrow> pystr \<Rightarrow> bool \<Rightarrow> pystr option \<Rightarrow> http_request"
where
  "posted_request base_url prompt model web_search provider auto_continue api_key =
     \<lparr>req_url = base_url @ str ''/backend-api/v2/conversation'',
      req_json = JObject
        [(str ''model'', JString model),
         (str ''web_search'', JBool web_search),
         (str ''provider'', JString provider),
         (str ''messages'',
            JArray [JObject [(str ''role'', JString (str ''user'')), (str ''content'', JString prompt)]]),
         (str ''auto_continue'', JBool auto_continue),
         (str ''api_key'', (case api_key of None \<Rightarrow> JNull | Some k \<Rightarrow> JString k))],
      req_stream = True,
      req_timeout = 30\<rparr>"

section \<open>Auxiliary facts\<close>

subsection \<open>The decoder consumes what it reads\<close>

text \<open>Every value that \<open>scan_once\<close> returns has consumed at least one character.  So the
  comparisons of lengths in \<open>JSONObject\<close> and \<open>JSONArray\<close>, which are there for the
  termination proof, are always true, and the two functions satisfy the equations of the
  loops as the decoder has them.\<close>

lemma dropWhile_bounds:
  "length (dropWhile P xs) < Suc (length xs)"
  "length (dropWhile P xs) < Suc (Suc (length xs))"
  "length (dropWhile P xs) \<le> Suc (length xs)"
  "length (dropWhile P xs) \<le> Suc (Suc (length xs))"
  "length (dropWhile P xs) \<le> Suc (Suc (Suc (length xs)))"
  using length_dropWhile_le [of P xs] by simp_all

lemma match_integer_shorter: "match_integer s = Some (t, r) \<Longrightarrow> length r < length s"
  by (auto simp: match_integer_def Let_def dropWhile_bounds split: list.splits if_splits prod.splits)

lemma match_frac_le: "match_frac s = (t, r) \<Longrightarrow> length r \<le> length s"
  by (auto simp: match_frac_def dropWhile_bounds split: list.splits if_splits)

lemma match_exp_le: "match_exp s = (t, r) \<Longrightarrow> length r \<le> length s"
  by (auto simp: match_exp_def Let_def dropWhile_bounds split: list.splits if_splits prod.splits)

lemma match_number_shorter: "match_number s = Some (v, r) \<Longrightarrow> length r < length s"
proof -
  assume a: "match_number s = Some (v, r)"
  then obtain t r0 where i: "match_integer s = Some (t, r0)"
    by (auto simp: match_number_def split: option.splits)
  obtain f r1 where f: "match_frac r0 = (f, r1)" by (cases "match_frac r0")
  obtain e r2 where e: "match_exp r1 = (e, r2)" by (cases "match_exp r1")
  have "r = r2" using a i f e by (auto simp: match_number_def split: if_splits)
  then show ?thesis
    using match_integer_shorter [OF i] match_frac_le [OF f] match_exp_le [OF e] by simp
qed




lemma JSONObject_shorter: "JSONObject s pairs = Some (v1, r1) \<Longrightarrow> length r1 < length s"
proof (induction s arbitrary: pairs rule: length_induct)
  case (1 s)
  note a = "1.prems"
  obtain key r where k: "scanstring s = Some (key, r)"
    using a by (auto split: option.splits)
  obtain x ra where x: "skip_ws r = x # ra" "x = 58"
    using a k by (auto split: list.splits if_splits)
  obtain v' rb where v: "scan_once (skip_ws ra) = Some (v', rb)" "length rb < length (skip_ws ra)"
    using a k x by (auto split: option.splits if_splits)
  obtain y rc where y: "skip_ws rb = y # rc"
    using a k x v by (auto split: list.splits)
  have base: "length rc < length s"
    using scanstring_shorter [OF k] skip_ws_Cons_lt [OF x(1)] skip_ws_le [of ra] v(2)
      skip_ws_Cons_lt [OF y] by simp
  show ?case
  proof (cases "y = 125")
    case True
    then show ?thesis using a k x v y base by simp
  next
    case False
    obtain z rd where z: "y = 44" "skip_ws rc = z # rd" "z = 34"
      using a k x v y False by (auto split: list.splits if_splits)
    have rec: "JSONObject rd (pairs @ [(key, v')]) = Some (v1, r1)"
      using a k x v y False z by simp
    have lt: "length rd < length s"
      using base skip_ws_Cons_lt [OF z(2)] by simp
    have "length r1 < length rd"
      using "1.IH" lt rec by blast
    then show ?thesis using lt by simp
  qed
qed

lemma JSONArray_shorter: "JSONArray s vals = Some (v2, r2) \<Longrightarrow> length r2 < length s"
proof (induction s arbitrary: vals rule: length_induct)
  case (1 s)
  note a = "1.prems"
  obtain v' r where v: "scan_once s = Some (v', r)" "length r < length s"
    using a by (auto split: option.splits if_splits)
  obtain y ra where y: "skip_ws r = y # ra"
    using a v by (auto split: list.splits)
  show ?case
  proof (cases "y = 93")
    case True
    then show ?thesis using a v y skip_ws_Cons_lt [OF y] by simp
  next
    case False
    have c: "y = 44" and rec: "JSONArray (skip_ws ra) (vals @ [v']) = Some (v2, r2)"
      using a v y False by (auto split: if_splits)
    have lt: "length (skip_ws ra) < length s"
      using v(2) skip_ws_Cons_lt [OF y] skip_ws_le [of ra] by simp
    have "length r2 < length (skip_ws ra)"
      using "1.IH" lt rec by blast
    then show ?thesis using lt by simp
  qed
qed

lemma scan_once_Cons_shorter:
  assumes a: "scan_once (c # r0) = Some (v, r)"
  shows "length r < length (c # r0)"
proof (cases "c = 34")
  case True
  then obtain t where "scanstring r0 = Some (t, r)" using a by auto
  then show ?thesis using scanstring_shorter [of r0 t r] by simp
next
  case n34: False
  show ?thesis
  proof (cases "c = 123")
    case True
    obtain x r1 where x: "skip_ws r0 = x # r1"
      using a True by (cases "skip_ws r0") auto
    show ?thesis
    proof (cases "x = 125")
      case True
      then show ?thesis using a \<open>c = 123\<close> x skip_ws_Cons_lt [OF x] by simp
    next
      case False
      then have "x = 34" "JSONObject r1 [] = Some (v, r)"
        using a \<open>c = 123\<close> x by (auto split: if_splits)
      then show ?thesis using JSONObject_shorter [of r1 "[]" v r] skip_ws_Cons_lt [OF x] by simp
    qed
  next
    case n123: False
    show ?thesis
    proof (cases "c = 91")
      case True
      obtain x r1 where x: "skip_ws r0 = x # r1"
        using a True by (cases "skip_ws r0") auto
      show ?thesis
      proof (cases "x = 93")
        case True
        then show ?thesis using a \<open>c = 91\<close> x skip_ws_Cons_lt [OF x] by simp
      next
        case False
        then have "JSONArray (x # r1) [] = Some (v, r)"
          using a \<open>c = 91\<close> x by simp
        then show ?thesis using JSONArray_shorter [of "x # r1" "[]" v r] x skip_ws_le [of r0] by simp
      qed
    next
      case n91: False
      have "scan_once (c # r0) =
        (if c = 110 \<and> take 4 (c # r0) = str ''null'' then Some (JNull, drop 3 r0)
         else if c = 116 \<and> take 4 (c # r0) = str ''true'' then Some (JBool True, drop 3 r0)
         else if c = 102 \<and> take 5 (c # r0) = str ''false'' then Some (JBool False, drop 4 r0)
         else
           (case match_number (c # r0) of
              Some res \<Rightarrow> Some res
            | None \<Rightarrow>
                if c = 78 \<and> take 3 (c # r0) = str ''NaN'' then Some (JConst (str ''NaN''), drop 2 r0)
                else if c = 73 \<and> take 8 (c # r0) = str ''Infinity'' then Some (JConst (str ''Infinity''), drop 7 r0)
                else if c = 45 \<and> take 9 (c # r0) = str ''-Infinity'' then Some (JConst (str ''-Infinity''), drop 8 r0)
                else None))"
        using n34 n123 n91 by simp
      then show ?thesis
        using a match_number_shorter [of "c # r0" v r]
        by (auto split: if_splits option.splits)
    qed
  qed
qed

lemma scan_once_shorter: "length r < length s" if "scan_once s = Some (v, r)"
proof (cases s)
  case Nil
  then show ?thesis using that by simp
next
  case (Cons c r0)
  then show ?thesis using that scan_once_Cons_shorter [of c r0 v r] by simp
qed


lemma JSONArray_unguarded:
  "JSONArray s vals =
     (case scan_once s of
        None \<Rightarrow> None
      | Some (v, r) \<Rightarrow>
          (case skip_ws r of
             [] \<Rightarrow> None
           | y # r1 \<Rightarrow>
               if y = 93 then Some (JArray (vals @ [v]), r1)
               else if y \<noteq> 44 then None
               else JSONArray (skip_ws r1) (vals @ [v])))"
proof (cases "scan_once s")
  case None
  then show ?thesis by simp
next
  case (Some p)
  obtain v r where p: "p = (v, r)" by (cases p)
  have "length r < length s" using Some p scan_once_shorter [of s v r] by simp
  then show ?thesis using Some p by simp
qed

lemma JSONObject_unguarded:
  "JSONObject s pairs =
     (case scanstring s of
        None \<Rightarrow> None
      | Some (key, r) \<Rightarrow>
          (case skip_ws r of
             [] \<Rightarrow> None
           | x # r1 \<Rightarrow>
               if x \<noteq> 58 then None
               else
                 (case scan_once (skip_ws r1) of
                    None \<Rightarrow> None
                  | Some (v, r2) \<Rightarrow>
                      (case skip_ws r2 of
                         [] \<Rightarrow> None
                       | y # r3 \<Rightarrow>
                           if y = 125 then Some (JObject (pairs @ [(key, v)]), r3)
                           else if y \<noteq> 44 then None
                           else
                             (case skip_ws r3 of
                                [] \<Rightarrow> None
                              | z # r4 \<Rightarrow>
                                  if z \<noteq> 34 then None
                                  else JSONObject r4 (pairs @ [(key, v)]))))))"
proof -
  have g: "length r2 < length (skip_ws r1)" if "scan_once (skip_ws r1) = Some (v, r2)" for r1 v r2
    using that by (rule scan_once_shorter)
  show ?thesis
    by (subst JSONObject.simps)
       (auto simp: g split: option.splits list.splits simp del: JSONObject.simps)
qed

subsection \<open>Running a generator\<close>

declare list_gen.simps [simp del]

lemma list_gen_finished: "gen_finished g \<Longrightarrow> list_gen g = (Inr [], g)"
  by (subst list_gen.simps) (simp add: gen_next_def)

lemma list_gen_drain:
  "unread r = ls \<Longrightarrow>
   list_gen \<lparr>gen_response = r, gen_finished = False\<rparr> =
     (fst (drain ls), \<lparr>gen_response = r\<lparr>unread := snd (drain ls)\<rparr>, gen_finished = True\<rparr>)"
proof (induction ls arbitrary: r)
  case Nil
  then show ?case
    by (subst list_gen.simps) (simp add: gen_next_def)
next
  case (Cons l ls)
  have step: "list_gen \<lparr>gen_response = r\<lparr>unread := ls\<rparr>, gen_finished = False\<rparr> =
     (fst (drain ls), \<lparr>gen_response = r\<lparr>unread := snd (drain ls)\<rparr>, gen_finished = True\<rparr>)"
    using Cons.IH [of "r\<lparr>unread := ls\<rparr>"] by simp
  show ?case
  proof (cases "extract_content l")
    case Skipped
    have "parse_chunks (l # ls) = parse_chunks ls" using Skipped by simp
    then have "gen_next \<lparr>gen_response = r, gen_finished = False\<rparr> =
               gen_next \<lparr>gen_response = r\<lparr>unread := ls\<rparr>, gen_finished = False\<rparr>"
      using Cons.prems by (simp add: gen_next_def split: prod.splits step.splits)
    then have "list_gen \<lparr>gen_response = r, gen_finished = False\<rparr> =
               list_gen \<lparr>gen_response = r\<lparr>unread := ls\<rparr>, gen_finished = False\<rparr>"
      by (subst list_gen.simps, subst (2) list_gen.simps) simp
    then show ?thesis using step Skipped by simp
  next
    case (Extracted c)
    then have "gen_next \<lparr>gen_response = r, gen_finished = False\<rparr> =
               (Yield c, \<lparr>gen_response = r\<lparr>unread := ls\<rparr>, gen_finished = False\<rparr>)"
      using Cons.prems by (simp add: gen_next_def)
    then show ?thesis using step Extracted
      by (subst list_gen.simps) (simp split: prod.splits sum.splits)
  next
    case (Failed e)
    then have "gen_next \<lparr>gen_response = r, gen_finished = False\<rparr> =
               (Raise e, \<lparr>gen_response = r\<lparr>unread := ls\<rparr>, gen_finished = True\<rparr>)"
      using Cons.prems by (simp add: gen_next_def)
    then show ?thesis using Failed
      by (subst list_gen.simps) simp
  qed
qed

lemma gen_next_finished: "gen_finished g \<Longrightarrow> gen_next g = (StopIteration, g)"
  by (simp add: gen_next_def)

lemma fst_gen_run_Suc:
  "fst (gen_run (Suc n) g) = fst (gen_next g) # fst (gen_run n (snd (gen_next g)))"
  by (simp split: prod.splits)

lemma gen_run_finished: "gen_finished g \<Longrightarrow> fst (gen_run n g) = replicate n StopIteration"
  by (induction n) (simp_all add: fst_gen_run_Suc gen_next_finished del: gen_run.simps(2))

lemma gen_next_Nil:
  "unread r = [] \<Longrightarrow>
   gen_next \<lparr>gen_response = r, gen_finished = False\<rparr> =
     (StopIteration, \<lparr>gen_response = r, gen_finished = True\<rparr>)"
  by (simp add: gen_next_def)

lemma gen_next_Cons:
  "unread r = l # ls \<Longrightarrow>
   gen_next \<lparr>gen_response = r, gen_finished = False\<rparr> =
     (case extract_content l of
        Skipped \<Rightarrow> gen_next \<lparr>gen_response = r\<lparr>unread := ls\<rparr>, gen_finished = False\<rparr>
      | Extracted c \<Rightarrow> (Yield c, \<lparr>gen_response = r\<lparr>unread := ls\<rparr>, gen_finished = False\<rparr>)
      | Failed e \<Rightarrow> (Raise e, \<lparr>gen_response = r\<lparr>unread := ls\<rparr>, gen_finished = True\<rparr>))"
  by (cases "extract_content l") (simp_all add: gen_next_def split: prod.splits step.splits)

lemma gen_run_yields:
  "unread r = ls \<Longrightarrow>
   fst (gen_run n \<lparr>gen_response = r, gen_finished = False\<rparr>) =
     take n (yields ls) @ replicate (n - length (yields ls)) StopIteration"
proof (induction ls arbitrary: r n)
  case Nil
  show ?case
  proof (cases n)
    case 0
    then show ?thesis by simp
  next
    case (Suc m)
    then show ?thesis
      using Nil gen_run_finished [of "\<lparr>gen_response = r, gen_finished = True\<rparr>" m]
      by (simp add: fst_gen_run_Suc gen_next_Nil del: gen_run.simps(2))
  qed
next
  case (Cons l ls)
  show ?case
  proof (cases n)
    case 0
    then show ?thesis by simp
  next
    case (Suc m)
    note IH = Cons.IH [of "r\<lparr>unread := ls\<rparr>", simplified]
    show ?thesis
    proof (cases "extract_content l")
      case Skipped
      then have "gen_run (Suc m) \<lparr>gen_response = r, gen_finished = False\<rparr> =
                 gen_run (Suc m) \<lparr>gen_response = r\<lparr>unread := ls\<rparr>, gen_finished = False\<rparr>"
        using Cons.prems by (simp add: gen_next_Cons)
      then show ?thesis using IH [of "Suc m"] Skipped Suc by simp
    next
      case (Extracted c)
      then show ?thesis using IH [of m] Cons.prems Suc
        by (simp add: fst_gen_run_Suc gen_next_Cons del: gen_run.simps(2))
    next
      case (Failed e)
      then show ?thesis
        using Cons.prems Suc gen_run_finished [of "\<lparr>gen_response = r\<lparr>unread := ls\<rparr>, gen_finished = True\<rparr>" m]
        by (simp add: fst_gen_run_Suc gen_next_Cons del: gen_run.simps(2))
    qed
  qed
qed

lemma well_formed_Cons:
  "well_formed (l # ls) \<longleftrightarrow> \<not> fails l \<and> well_formed ls"
  by (simp add: well_formed_def)

lemma content_fragments_Nil: "content_fragments [] = []"
  by (simp add: content_fragments_def)

lemma content_fragments_Cons:
  "content_fragments (l # ls) =
     (case extract_content l of Extracted c \<Rightarrow> c # content_fragments ls | _ \<Rightarrow> content_fragments ls)"
  by (simp add: content_fragments_def split: line_outcome.splits)

lemma yields_well_formed: "well_formed ls \<Longrightarrow> yields ls = map Yield (content_fragments ls)"
  by (induction ls)
     (auto simp: well_formed_Cons content_fragments_Nil content_fragments_Cons fails_def
           split: line_outcome.splits)


lemma drain_consumed: "fst (drain ls) = Inr items \<Longrightarrow> snd (drain ls) = []"
  by (induction ls arbitrary: items) (auto split: line_outcome.splits prod.splits sum.splits)

lemma drain_skipped: "skipped l \<Longrightarrow> fst (drain (a @ l # b)) = fst (drain (a @ b))"
  by (induction a) (auto simp: skipped_def split: line_outcome.splits prod.splits sum.splits)

lemma yields_skipped: "skipped l \<Longrightarrow> yields (a @ l # b) = yields (a @ b)"
  by (induction a) (auto simp: skipped_def split: line_outcome.splits)

lemma content_fragments_skipped:
  "skipped l \<Longrightarrow> content_fragments (a @ l # b) = content_fragments (a @ b)"
  by (induction a) (auto simp: skipped_def content_fragments_Cons split: line_outcome.splits)


lemma parse_response_aggregate:
  "parse_response r False =
     ((case fst (drain (unread r)) of
         Inl e \<Rightarrow> Raised e
       | Inr items \<Rightarrow> (case str_join items of Inl e \<Rightarrow> Raised e | Inr s \<Rightarrow> Returned_str s)),
      r\<lparr>unread := snd (drain (unread r))\<rparr>)"
  by (simp add: parse_response_def list_gen_drain [OF refl] split: sum.splits)

lemma parse_response_streaming:
  "parse_response r True = (Returned_gen \<lparr>gen_response = r, gen_finished = False\<rparr>, r)"
  by (simp add: parse_response_def)

lemma app_parse_loop_returns:
  "fst (app_parse_loop ls acc) = Inr s \<longleftrightarrow>
     (\<exists>items t. fst (drain ls) = Inr items \<and> str_join items = Inr t \<and> s = acc @ t)"
proof (induction ls arbitrary: acc)
  case Nil
  then show ?case by auto
next
  case (Cons l ls)
  show ?case
  proof (cases "extract_content l")
    case Skipped
    then show ?thesis using Cons.IH [of acc] by simp
  next
    case (Extracted c)
    show ?thesis
    proof (cases c)
      case (JString x)
      then show ?thesis using Extracted Cons.IH [of "acc @ x"]
        by (auto simp: str_iadd_def split: prod.splits sum.splits)
    qed (use Extracted in \<open>auto simp: str_iadd_def split: prod.splits sum.splits\<close>)
  next
    case (Failed e)
    then show ?thesis by simp
  qed
qed

lemma send_request_posted:
  "send_request w base_url (req_json (posted_request base_url prompt model web_search provider auto_continue api_key)) 30 =
     (server w (posted_request base_url prompt model web_search provider auto_continue api_key),
      w\<lparr>requests_sent := requests_sent w @
          [posted_request base_url prompt model web_search provider auto_continue api_key]\<rparr>)"
  by (simp add: send_request_def requests_post_def posted_request_def Let_def)

lemma enter_prompt_unfold:
  "enter_prompt w base_url prompt model web_search provider auto_continue api_key chunked =
     (case server w (posted_request base_url prompt model web_search provider auto_continue api_key) of
        Inl e \<Rightarrow>
          \<lparr>result = Raised e, response_after = None,
           world_after = w\<lparr>requests_sent := requests_sent w @
             [posted_request base_url prompt model web_search provider auto_continue api_key]\<rparr>\<rparr>
      | Inr response \<Rightarrow>
          (let w' = w\<lparr>requests_sent := requests_sent w @
                  [posted_request base_url prompt model web_search provider auto_continue api_key]\<rparr>;
               parsed = fst (parse_response response chunked);
               response' = snd (parse_response response chunked) in
           case parsed of
             Raised e \<Rightarrow> \<lparr>result = Raised e, response_after = Some response', world_after = w'\<rparr>
           | _ \<Rightarrow>
               if chunked then \<lparr>result = parsed, response_after = Some response', world_after = w'\<rparr>
               else
                 (case close_error response' of
                    None \<Rightarrow>
                      \<lparr>result = parsed,
                       response_after = Some (response'\<lparr>close_calls := close_calls response' + 1\<rparr>),
                       world_after = w'\<rparr>
                  | Some e \<Rightarrow>
                      \<lparr>result = (if is_RequestException e then parsed else Raised e),
                       response_after = Some (response'\<lparr>close_calls := close_calls response' + 1\<rparr>),
                       world_after = w'\<rparr>)))"
proof -
  let ?req = "posted_request base_url prompt model web_search provider auto_continue api_key"
  have sr: "send_request w base_url (req_json ?req) 30 =
      (server w ?req, w\<lparr>requests_sent := requests_sent w @ [?req]\<rparr>)"
    by (rule send_request_posted)
  have data: "req_json ?req = JObject
            [(str ''model'', JString model),
             (str ''web_search'', JBool web_search),
             (str ''provider'', JString provider),
             (str ''messages'',
                JArray [JObject [(str ''role'', JString (str ''user'')), (str ''content'', JString prompt)]]),
             (str ''auto_continue'', JBool auto_continue),
             (str ''api_key'', (case api_key of None \<Rightarrow> JNull | Some k \<Rightarrow> JString k))]"
    by (simp add: posted_request_def)
  have ep: "enter_prompt w base_url prompt model web_search provider auto_continue api_key chunked =
     (case send_request w base_url (req_json ?req) 30 of
        (Inl e, w') \<Rightarrow> \<lparr>result = Raised e, response_after = None, world_after = w'\<rparr>
      | (Inr response, w') \<Rightarrow>
          (case parse_response response chunked of
             (Raised e, response') \<Rightarrow>
               \<lparr>result = Raised e, response_after = Some response', world_after = w'\<rparr>
           | (parsed_response, response') \<Rightarrow>
               if \<not> chunked then
                 (case response_close response' of
                    (None, response'') \<Rightarrow>
                      \<lparr>result = parsed_response, response_after = Some response'', world_after = w'\<rparr>
                  | (Some e, response'') \<Rightarrow>
                      if is_StreamConsumedError e then
                        \<lparr>result = parsed_response, response_after = Some response'', world_after = w'\<rparr>
                      else if is_RequestException e then
                        \<lparr>result = parsed_response, response_after = Some response'', world_after = w'\<rparr>
                      else \<lparr>result = Raised e, response_after = Some response'', world_after = w'\<rparr>)
               else \<lparr>result = parsed_response, response_after = Some response', world_after = w'\<rparr>))"
    unfolding enter_prompt_def Let_def data ..
  show ?thesis
  proof (cases "server w ?req")
    case (Inl e)
    then show ?thesis unfolding ep sr by simp
  next
    case (Inr response)
    obtain parsed response' where pr: "parse_response response chunked = (parsed, response')"
      by (cases "parse_response response chunked")
    show ?thesis
    proof (cases "close_error response'")
      case None
      then show ?thesis unfolding ep sr using Inr pr
        by (cases parsed; cases chunked) (simp_all add: response_close_def Let_def)
    next
      case (Some e)
      then show ?thesis unfolding ep sr using Inr pr
        by (cases parsed; cases chunked)
           (simp_all add: response_close_def Let_def is_StreamConsumedError_def is_RequestException_def)
    qed
  qed
qed

text \<open>The extraction on the lines used as examples below.\<close>

lemmas eval_defs = str_def bytes_decode_def startswith_def content_prefix_def extract_content_def
  json_loads_def json_decode_def getitem_def skip_ws_def is_ws_def hex_digit_def backslash_def
  is_digit_def match_number_def match_integer_def match_frac_def match_exp_def digits_value_def
  is_cont_def Let_def

lemma extract_hi:
  \<open>extract_content ''{"type": "content", "content": "Hi"}'' = Extracted (JString (str ''Hi''))\<close>
  by (simp add: eval_defs)

lemma extract_there:
  \<open>extract_content ''{"type": "content", "content": " there"}'' = Extracted (JString (str '' there''))\<close>
  by (simp add: eval_defs)

lemma extract_status:
  \<open>extract_content ''{"type": "status", "content": "ignored"}'' = Skipped\<close>
  by (simp add: eval_defs)

lemma extract_hi_unspaced:
  \<open>extract_content ''{"type":"content","content":"Hi"}'' = Skipped\<close>
  by (simp add: eval_defs)

lemma extract_status_unspaced:
  \<open>extract_content ''{"type":"status","content":"ignored"}'' = Skipped\<close>
  by (simp add: eval_defs)

lemma extract_there_unspaced:
  \<open>extract_content ''{"type":"content","content":" there"}'' = Skipped\<close>
  by (simp add: eval_defs)

lemma extract_truncated:
  \<open>extract_content ''{"type": "content", "content":'' = Failed JSONDecodeError\<close>
  by (simp add: eval_defs)

lemma extract_number:
  \<open>extract_content ''{"type": "content", "content": 5}'' = Extracted (JInt 5)\<close>
  by (simp add: eval_defs)

lemma extract_empty: "extract_content [] = Skipped"
  by (simp add: extract_content_def)

lemmas extract_evals = extract_hi extract_there extract_status extract_hi_unspaced
  extract_status_unspaced extract_there_unspaced extract_truncated extract_number extract_empty

lemma str_Hi_there: "str ''Hi'' @ str '' there'' = str ''Hi there''"
  by (simp add: str_def)

lemma extract_unprefixed:
  "bytes_decode l = Inr d \<Longrightarrow> \<not> startswith d content_prefix \<Longrightarrow> skipped l"
  by (simp add: skipped_def extract_content_def)

lemma app_parse_loop_skipped:
  "skipped l \<Longrightarrow> fst (app_parse_loop (a @ l # b) acc) = fst (app_parse_loop (a @ b) acc)"
  by (induction a arbitrary: acc)
     (auto simp: skipped_def split: line_outcome.splits prod.splits sum.splits)

lemma fst_app_parse_response:
  "fst (app_parse_response r) =
     (case fst (app_parse_loop (unread r) []) of Inl e \<Rightarrow> Raised e | Inr s \<Rightarrow> Returned_str s)"
  by (simp add: app_parse_response_def split: prod.splits sum.splits)

lemma parse_response_skipped:
  "skipped l \<Longrightarrow>
   fst (parse_response (r\<lparr>unread := a @ l # b\<rparr>) False) = fst (parse_response (r\<lparr>unread := a @ b\<rparr>) False)"
  by (simp add: parse_response_aggregate drain_skipped)

lemma gen_run_skipped:
  "skipped l \<Longrightarrow>
   fst (gen_run n \<lparr>gen_response = r\<lparr>unread := a @ l # b\<rparr>, gen_finished = False\<rparr>) =
   fst (gen_run n \<lparr>gen_response = r\<lparr>unread := a @ b\<rparr>, gen_finished = False\<rparr>)"
  by (simp add: gen_run_yields [OF refl] yields_skipped)

lemma extract_cut:
  \<open>extract_content ''{"type": "conte'' = Skipped\<close>
  by (simp add: eval_defs)

lemma decode_cut:
  \<open>bytes_decode ''{"type": "conte'' = Inr (str ''{"type": "conte'')\<close>
  by (simp add: eval_defs)

lemma skipped_head:
  "skipped y \<Longrightarrow>
     content_fragments (y # ys) = content_fragments ys
   \<and> fst (drain (y # ys)) = fst (drain ys)
   \<and> yields (y # ys) = yields ys"
  using content_fragments_skipped [of y "[]" ys] drain_skipped [of y "[]" ys]
    yields_skipped [of y "[]" ys]
  by simp

lemma all_skipped:
  "list_all skipped ls \<Longrightarrow>
     content_fragments ls = [] \<and> fst (drain ls) = Inr [] \<and> yields ls = []"
proof (induction ls)
  case Nil
  show ?case by (simp add: content_fragments_Nil)
next
  case (Cons y ys)
  then show ?case using skipped_head [of y ys] by simp
qed

lemma inserted_invariant:
  "inserted ls ls' \<Longrightarrow>
     content_fragments ls' = content_fragments ls
   \<and> fst (drain ls') = fst (drain ls)
   \<and> yields ls' = yields ls"
proof (induction ls ls' rule: inserted.induct)
  case (1 ls')
  then show ?case using all_skipped [of ls'] by (simp add: content_fragments_Nil)
next
  case (2 x xs)
  then show ?case by simp
next
  case (3 x xs y ys)
  from "3.prems" consider (same) "x = y" "inserted xs ys" | (skip) "skipped y" "inserted (x # xs) ys"
    by auto
  then show ?case
  proof cases
    case same
    then show ?thesis using "3.IH"(1)
      by (auto simp: content_fragments_Cons split: line_outcome.splits prod.splits sum.splits)
  next
    case skip
    then show ?thesis using "3.IH"(2) skipped_head [of y ys] by simp
  qed
qed

lemma parse_response_keeps_close:
  "close_error (snd (parse_response r chunked)) = close_error r
   \<and> close_calls (snd (parse_response r chunked)) = close_calls r"
  by (cases chunked) (simp_all add: parse_response_aggregate parse_response_streaming)

lemma parse_response_returned_consumed:
  "parse_response r False = (Returned_str s, r') \<Longrightarrow> unread r' = []"
  by (auto simp: parse_response_aggregate drain_consumed split: sum.splits)

section \<open>Aggregate mode\<close>



section \<open>Streaming mode\<close>



section \<open>Lines that are not content events\<close>

text \<open>A line that begins with the prefix of a content event and is not a JSON document makes
  \<open>json.loads\<close> raise, and nothing catches the exception: in aggregate mode
  \<open>parse_response\<close> raises it, in streaming mode the call of \<open>next\<close> that reaches the line
  raises it and the generator is finished, so the fragment of the line after it is never
  produced.  The parser of \<open>app.py\<close> does the same.\<close>

theorem malformed_prefixed_line_raises:
  \<open>fst (parse_response
      \<lparr>unread = [''{"type": "content", "content":'', ''{"type": "content", "content": "Hi"}''],
       close_error = None, close_calls = 0\<rparr> False) = Raised JSONDecodeError
   \<and> fst (gen_run 2
      \<lparr>gen_response =
         \<lparr>unread = [''{"type": "content", "content":'', ''{"type": "content", "content": "Hi"}''],
          close_error = None, close_calls = 0\<rparr>,
       gen_finished = False\<rparr>) = [Raise JSONDecodeError, StopIteration]
   \<and> fst (app_parse_response
      \<lparr>unread = [''{"type": "content", "content":'', ''{"type": "content", "content": "Hi"}''],
       close_error = None, close_calls = 0\<rparr>) = Raised JSONDecodeError\<close>
  by (simp add: parse_response_aggregate gen_run_yields [OF refl] fst_app_parse_response extract_evals
        del: gen_run.simps)

text \<open>C3, as amended: a line that decodes as UTF-8 and does not begin with the prefix of a
  content event, whether or not it is a JSON document, is passed over in both modes and by
  the parser of \<open>app.py\<close>: the result is the one of the stream without that line, so the
  line raises nothing and every other line is still processed.\<close>

theorem unprefixed_line_is_skipped:
  assumes "bytes_decode l = Inr d" and "\<not> startswith d content_prefix"
  shows "fst (parse_response (r\<lparr>unread := pre @ l # post\<rparr>) False)
           = fst (parse_response (r\<lparr>unread := pre @ post\<rparr>) False)
       \<and> fst (gen_run n \<lparr>gen_response = r\<lparr>unread := pre @ l # post\<rparr>, gen_finished = False\<rparr>)
           = fst (gen_run n \<lparr>gen_response = r\<lparr>unread := pre @ post\<rparr>, gen_finished = False\<rparr>)
       \<and> fst (app_parse_response (r\<lparr>unread := pre @ l # post\<rparr>))
           = fst (app_parse_response (r\<lparr>unread := pre @ post\<rparr>))"
proof -
  have sk: "skipped l" using assms by (rule extract_unprefixed)
  show ?thesis
    using sk
    by (simp add: parse_response_skipped gen_run_skipped fst_app_parse_response app_parse_loop_skipped)
qed

theorem unprefixed_line_is_skipped_witness:
  \<open>bytes_decode ''{"type": "conte'' = Inr (str ''{"type": "conte'')
   \<and> \<not> startswith (str ''{"type": "conte'') content_prefix
   \<and> fst (parse_response
        \<lparr>unread = [''{"type": "content", "content": "Hi"}'', ''{"type": "conte'',
                   ''{"type": "content", "content": " there"}''],
         close_error = None, close_calls = 0\<rparr> False)
     = fst (parse_response
        \<lparr>unread = [''{"type": "content", "content": "Hi"}'',
                   ''{"type": "content", "content": " there"}''],
         close_error = None, close_calls = 0\<rparr> False)
   \<and> fst (parse_response
        \<lparr>unread = [''{"type": "content", "content": "Hi"}'', ''{"type": "conte'',
                   ''{"type": "content", "content": " there"}''],
         close_error = None, close_calls = 0\<rparr> False)
     = Returned_str (str ''Hi there'')\<close>
proof -
  have d: \<open>bytes_decode ''{"type": "conte'' = Inr (str ''{"type": "conte'')\<close>
    by (rule decode_cut)
  have p: \<open>\<not> startswith (str ''{"type": "conte'') content_prefix\<close>
    by (simp add: startswith_def content_prefix_def str_def)
  have v: \<open>fst (parse_response
        \<lparr>unread = [''{"type": "content", "content": "Hi"}'',
                   ''{"type": "content", "content": " there"}''],
         close_error = None, close_calls = 0\<rparr> False) = Returned_str (str ''Hi there'')\<close>
    by (simp add: parse_response_aggregate extract_evals str_Hi_there)
  show ?thesis
    using d p v
      unprefixed_line_is_skipped [OF d p,
        where r = "\<lparr>unread = [], close_error = None, close_calls = 0\<rparr>"
          and pre = \<open>[''{"type": "content", "content": "Hi"}'']\<close>
          and post = \<open>[''{"type": "content", "content": " there"}'']\<close> and n = 0]
    by simp
qed

section \<open>The scenario of the specification\<close>

text \<open>The three lines written without a space after the colons and commas do not begin with
  the prefix that the parser tests for, which has those spaces: nothing is extracted.\<close>

theorem unspaced_scenario_extracts_nothing:
  \<open>fst (parse_response
      \<lparr>unread = [''{"type":"content","content":"Hi"}'', ''{"type":"status","content":"ignored"}'',
                 ''{"type":"content","content":" there"}''],
       close_error = None, close_calls = 0\<rparr> False) = Returned_str []
   \<and> fst (parse_response
      \<lparr>unread = [''{"type":"content","content":"Hi"}'', ''{"type":"status","content":"ignored"}'',
                 ''{"type":"content","content":" there"}''],
       close_error = None, close_calls = 0\<rparr> False) \<noteq> Returned_str (str ''Hi there'')
   \<and> fst (gen_run 1
      \<lparr>gen_response =
         \<lparr>unread = [''{"type":"content","content":"Hi"}'', ''{"type":"status","content":"ignored"}'',
                    ''{"type":"content","content":" there"}''],
          close_error = None, close_calls = 0\<rparr>,
       gen_finished = False\<rparr>) = [StopIteration]\<close>
  by (simp add: parse_response_aggregate gen_run_yields [OF refl] extract_evals str_def
        del: gen_run.simps)

text \<open>C4, as amended: for the stream whose three lines are the content event \<open>Hi\<close>, a status
  event and the content event \<open> there\<close>, each written with one space after every colon and
  comma, \<open>parse_response\<close> returns the string \<open>Hi there\<close> in aggregate mode and the
  generator gives \<open>Hi\<close>, \<open> there\<close> and then stops in streaming mode.\<close>

theorem spaced_scenario_result:
  \<open>fst (parse_response
      \<lparr>unread = [''{"type": "content", "content": "Hi"}'', ''{"type": "status", "content": "ignored"}'',
                 ''{"type": "content", "content": " there"}''],
       close_error = None, close_calls = 0\<rparr> False) = Returned_str (str ''Hi there'')
   \<and> fst (gen_run 3
      \<lparr>gen_response =
         \<lparr>unread = [''{"type": "content", "content": "Hi"}'', ''{"type": "status", "content": "ignored"}'',
                    ''{"type": "content", "content": " there"}''],
          close_error = None, close_calls = 0\<rparr>,
       gen_finished = False\<rparr>)
     = [Yield (JString (str ''Hi'')), Yield (JString (str '' there'')), StopIteration]\<close>
  by (simp add: parse_response_aggregate gen_run_yields [OF refl] extract_evals str_Hi_there
        del: gen_run.simps)

section \<open>Order of the fragments\<close>

text \<open>Putting a malformed line that begins with the prefix of a content event between two
  content events changes the result: aggregate mode raises instead of returning the two
  fragments, and streaming mode gives the first fragment, raises, and never gives the
  second.\<close>

theorem inserted_malformed_line_changes_result:
  \<open>fst (parse_response
      \<lparr>unread = [''{"type": "content", "content": "Hi"}'', ''{"type": "content", "content": " there"}''],
       close_error = None, close_calls = 0\<rparr> False) = Returned_str (str ''Hi there'')
   \<and> fst (parse_response
      \<lparr>unread = [''{"type": "content", "content": "Hi"}'', ''{"type": "content", "content":'',
                 ''{"type": "content", "content": " there"}''],
       close_error = None, close_calls = 0\<rparr> False) = Raised JSONDecodeError
   \<and> fst (gen_run 3
      \<lparr>gen_response =
         \<lparr>unread = [''{"type": "content", "content": "Hi"}'', ''{"type": "content", "content":'',
                    ''{"type": "content", "content": " there"}''],
          close_error = None, close_calls = 0\<rparr>,
       gen_finished = False\<rparr>)
     = [Yield (JString (str ''Hi'')), Raise JSONDecodeError, StopIteration]\<close>
  by (simp add: parse_response_aggregate gen_run_yields [OF refl] extract_evals str_Hi_there
        del: gen_run.simps)

text \<open>C5, as amended: putting any number of lines that the parser passes over (empty lines,
  and lines that decode as UTF-8 and do not begin with the prefix of a content event)
  anywhere into a stream changes neither the content-event fragments of the stream, nor the
  result of aggregate mode, nor what the generator of streaming mode gives; and when no line
  of the stream raises, what streaming mode gives is exactly the content-event fragments in
  arrival order, nothing reordered, dropped or repeated.\<close>

theorem inserting_skipped_lines_keeps_fragments:
  assumes "inserted ls ls'"
  shows "content_fragments ls' = content_fragments ls
       \<and> fst (parse_response (r\<lparr>unread := ls'\<rparr>) False) = fst (parse_response (r\<lparr>unread := ls\<rparr>) False)
       \<and> fst (gen_run n \<lparr>gen_response = r\<lparr>unread := ls'\<rparr>, gen_finished = False\<rparr>)
           = fst (gen_run n \<lparr>gen_response = r\<lparr>unread := ls\<rparr>, gen_finished = False\<rparr>)
       \<and> (well_formed ls \<longrightarrow>
            fst (gen_run (length (content_fragments ls) + k)
                   \<lparr>gen_response = r\<lparr>unread := ls'\<rparr>, gen_finished = False\<rparr>)
              = map Yield (content_fragments ls) @ replicate k StopIteration)"
  using inserted_invariant [OF assms]
  by (simp add: parse_response_aggregate gen_run_yields [OF refl] yields_well_formed)

theorem inserting_skipped_lines_keeps_fragments_witness:
  \<open>inserted
     [''{"type": "content", "content": "Hi"}'', ''{"type": "content", "content": " there"}'']
     [[], ''{"type": "content", "content": "Hi"}'', ''{"type": "status", "content": "ignored"}'',
      ''{"type": "content", "content": " there"}'']
   \<and> well_formed
     [''{"type": "content", "content": "Hi"}'', ''{"type": "content", "content": " there"}'']
   \<and> content_fragments
     [[], ''{"type": "content", "content": "Hi"}'', ''{"type": "status", "content": "ignored"}'',
      ''{"type": "content", "content": " there"}'']
     = [JString (str ''Hi''), JString (str '' there'')]
   \<and> fst (gen_run 3
       \<lparr>gen_response =
          \<lparr>unread =
             [[], ''{"type": "content", "content": "Hi"}'', ''{"type": "status", "content": "ignored"}'',
              ''{"type": "content", "content": " there"}''],
           close_error = None, close_calls = 0\<rparr>,
        gen_finished = False\<rparr>)
     = [Yield (JString (str ''Hi'')), Yield (JString (str '' there'')), StopIteration]\<close>
proof -
  let ?hi = \<open>''{"type": "content", "content": "Hi"}''\<close>
  let ?st = \<open>''{"type": "status", "content": "ignored"}''\<close>
  let ?th = \<open>''{"type": "content", "content": " there"}''\<close>
  have ins: "inserted [?hi, ?th] [[], ?hi, ?st, ?th]"
    by (simp add: skipped_def extract_evals)
  have wf: "well_formed [?hi, ?th]"
    by (simp add: well_formed_def fails_def extract_evals)
  have fr: "content_fragments [?hi, ?th] = [JString (str ''Hi''), JString (str '' there'')]"
    by (simp add: content_fragments_Cons content_fragments_Nil extract_evals)
  show ?thesis
    using ins wf
      inserting_skipped_lines_keeps_fragments [OF ins,
        where r = "\<lparr>unread = [], close_error = None, close_calls = 0\<rparr>" and n = 0 and k = 1]
    unfolding fr by (simp add: numeral_3_eq_3 del: gen_run.simps)
qed

section \<open>Release of the connection\<close>

text \<open>C6: when the server answers with a response, aggregate mode returns a string \<open>s\<close>, and
  \<open>close\<close> either succeeds or raises an exception of the class \<open>RequestException\<close> (which
  contains \<open>StreamConsumedError\<close>), then \<open>enter_prompt\<close> with \<open>chunked = False\<close> returns \<open>s\<close>
  to the caller, \<open>close\<close> has been called on the response exactly once, and no line of the
  response is left unread.\<close>

theorem aggregate_call_releases_once:
  assumes "server w (posted_request base_url prompt model web_search provider auto_continue api_key) = Inr r"
    and "parse_response r False = (Returned_str s, r')"
    and "\<forall>e. close_error r = Some e \<longrightarrow> is_RequestException e"
  shows "result (enter_prompt w base_url prompt model web_search provider auto_continue api_key False)
           = Returned_str s
       \<and> response_after (enter_prompt w base_url prompt model web_search provider auto_continue api_key False)
           = Some (r'\<lparr>close_calls := close_calls r + 1\<rparr>)
       \<and> unread r' = []"
proof -
  have ce: "close_error r' = close_error r" and cc: "close_calls r' = close_calls r"
    using parse_response_keeps_close [of r False] assms(2) by simp_all
  have un: "unread r' = []"
    using assms(2) by (rule parse_response_returned_consumed)
  show ?thesis
    using assms ce cc un
    by (cases "close_error r") (simp_all add: enter_prompt_unfold)
qed

theorem aggregate_call_releases_once_witness:
  \<open>server
     \<lparr>server = (\<lambda>req. Inr \<lparr>unread = [''{"type": "content", "content": "Hi"}''],
                              close_error = Some StreamConsumedError, close_calls = 0\<rparr>),
      requests_sent = []\<rparr>
     (posted_request (str ''http://127.0.0.1:8080'') (str ''hello'') [] False [] True None)
     = Inr \<lparr>unread = [''{"type": "content", "content": "Hi"}''],
            close_error = Some StreamConsumedError, close_calls = 0\<rparr>
   \<and> parse_response
       \<lparr>unread = [''{"type": "content", "content": "Hi"}''],
        close_error = Some StreamConsumedError, close_calls = 0\<rparr> False
     = (Returned_str (str ''Hi''),
        \<lparr>unread = [], close_error = Some StreamConsumedError, close_calls = 0\<rparr>)
   \<and> is_RequestException StreamConsumedError
   \<and> result (enter_prompt
       \<lparr>server = (\<lambda>req. Inr \<lparr>unread = [''{"type": "content", "content": "Hi"}''],
                                close_error = Some StreamConsumedError, close_calls = 0\<rparr>),
        requests_sent = []\<rparr>
       (str ''http://127.0.0.1:8080'') (str ''hello'') [] False [] True None False)
     = Returned_str (str ''Hi'')
   \<and> response_after (enter_prompt
       \<lparr>server = (\<lambda>req. Inr \<lparr>unread = [''{"type": "content", "content": "Hi"}''],
                                close_error = Some StreamConsumedError, close_calls = 0\<rparr>),
        requests_sent = []\<rparr>
       (str ''http://127.0.0.1:8080'') (str ''hello'') [] False [] True None False)
     = Some \<lparr>unread = [], close_error = Some StreamConsumedError, close_calls = 1\<rparr>\<close>
proof -
  let ?r = \<open>\<lparr>unread = [''{"type": "content", "content": "Hi"}''],
             close_error = Some StreamConsumedError, close_calls = 0\<rparr>\<close>
  let ?w = "\<lparr>server = (\<lambda>req. Inr ?r), requests_sent = []\<rparr>"
  have sv: "server ?w (posted_request (str ''http://127.0.0.1:8080'') (str ''hello'') [] False [] True None)
      = Inr ?r"
    by simp
  have pr: "parse_response ?r False
      = (Returned_str (str ''Hi''), \<lparr>unread = [], close_error = Some StreamConsumedError, close_calls = 0\<rparr>)"
    by (simp add: parse_response_aggregate extract_evals)
  have ce: "\<forall>e. close_error ?r = Some e \<longrightarrow> is_RequestException e"
    by (simp add: is_RequestException_def)
  have ie: "is_RequestException StreamConsumedError"
    by (simp add: is_RequestException_def)
  show ?thesis
    using sv pr ie aggregate_call_releases_once [OF sv pr ce]
    by simp
qed

section \<open>The request of a call and its result\<close>

text \<open>C8: for all arguments, \<open>enter_prompt\<close> posts exactly one request: to the URL
  \<open>base_url\<close> followed by \<open>/backend-api/v2/conversation\<close>, with the arguments unchanged in the
  body, the prompt as the only message under the role \<open>user\<close>, streaming on and a timeout of
  30 seconds.  When the server answers with a response, and in aggregate mode \<open>close\<close> raises
  nothing outside the class \<open>RequestException\<close>, the call returns exactly what
  \<open>parse_response\<close> returns for that response and \<open>chunked\<close>.\<close>

theorem enter_prompt_request_and_result:
  "(let req = \<lparr>req_url = base_url @ str ''/backend-api/v2/conversation'',
               req_json = JObject
                 [(str ''model'', JString model),
                  (str ''web_search'', JBool web_search),
                  (str ''provider'', JString provider),
                  (str ''messages'',
                     JArray [JObject [(str ''role'', JString (str ''user'')),
                                      (str ''content'', JString prompt)]]),
                  (str ''auto_continue'', JBool auto_continue),
                  (str ''api_key'', (case api_key of None \<Rightarrow> JNull | Some k \<Rightarrow> JString k))],
               req_stream = True,
               req_timeout = 30\<rparr>;
        out = enter_prompt w base_url prompt model web_search provider auto_continue api_key chunked
    in requests_sent (world_after out) = requests_sent w @ [req]
     \<and> (\<forall>r. server w req = Inr r \<longrightarrow>
            (chunked \<or> (\<forall>e. close_error r = Some e \<longrightarrow> is_RequestException e)) \<longrightarrow>
            result out = fst (parse_response r chunked)))"
proof -
  let ?req = "posted_request base_url prompt model web_search provider auto_continue api_key"
  let ?out = "enter_prompt w base_url prompt model web_search provider auto_continue api_key chunked"
  have sent: "requests_sent (world_after ?out) = requests_sent w @ [?req]"
    by (simp add: enter_prompt_unfold Let_def split: sum.splits pyresult.splits option.splits)
  have res: "result ?out = fst (parse_response r chunked)"
    if sv: "server w ?req = Inr r"
      and cl: "chunked \<or> (\<forall>e. close_error r = Some e \<longrightarrow> is_RequestException e)" for r
  proof -
    have ce: "close_error (snd (parse_response r chunked)) = close_error r"
      using parse_response_keeps_close [of r chunked] by simp
    show ?thesis
      using sv cl ce
      by (cases "fst (parse_response r chunked)"; cases chunked; cases "close_error r")
         (simp_all add: enter_prompt_unfold Let_def)
  qed
  show ?thesis
    unfolding Let_def using sent res by (simp add: posted_request_def)
qed

theorem enter_prompt_request_and_result_witness:
  \<open>(let w = \<lparr>server = (\<lambda>req. Inr \<lparr>unread = [''{"type": "content", "content": "Hi"}''],
                                      close_error = None, close_calls = 0\<rparr>),
              requests_sent = []\<rparr>;
        r = \<lparr>unread = [''{"type": "content", "content": "Hi"}''], close_error = None, close_calls = 0\<rparr>;
        req = \<lparr>req_url = str ''http://127.0.0.1:8080/backend-api/v2/conversation'',
               req_json = JObject
                 [(str ''model'', JString (str ''gpt'')),
                  (str ''web_search'', JBool False),
                  (str ''provider'', JString []),
                  (str ''messages'',
                     JArray [JObject [(str ''role'', JString (str ''user'')),
                                      (str ''content'', JString (str ''hello''))]]),
                  (str ''auto_continue'', JBool True),
                  (str ''api_key'', JNull)],
               req_stream = True,
               req_timeout = 30\<rparr>;
        out = enter_prompt w (str ''http://127.0.0.1:8080'') (str ''hello'') (str ''gpt'') False [] True
                None False
    in server w req = Inr r
     \<and> (\<forall>e. close_error r = Some e \<longrightarrow> is_RequestException e)
     \<and> requests_sent (world_after out) = [req]
     \<and> result out = fst (parse_response r False)
     \<and> result out = Returned_str (str ''Hi''))\<close>
proof -
  have pr: \<open>fst (parse_response
       \<lparr>unread = [''{"type": "content", "content": "Hi"}''], close_error = None, close_calls = 0\<rparr> False)
     = Returned_str (str ''Hi'')\<close>
    by (simp add: parse_response_aggregate extract_evals)
  have url: "str ''http://127.0.0.1:8080'' @ str ''/backend-api/v2/conversation''
      = str ''http://127.0.0.1:8080/backend-api/v2/conversation''"
    by (simp add: str_def)
  show ?thesis
    using pr
      enter_prompt_request_and_result
        [where w = \<open>\<lparr>server = (\<lambda>req. Inr \<lparr>unread = [''{"type": "content", "content": "Hi"}''],
                                      close_error = None, close_calls = 0\<rparr>),
              requests_sent = []\<rparr>\<close>
          and base_url = "str ''http://127.0.0.1:8080''" and prompt = "str ''hello''"
          and model = "str ''gpt''" and web_search = False and provider = "[]"
          and auto_continue = True and api_key = None and chunked = False]
    unfolding Let_def url by simp
qed

section \<open>The two parsers\<close>

text \<open>On a stream with a content event whose \<open>content\<close> is a number, followed by a malformed
  line with the prefix of a content event, the parser of \<open>app.py\<close> raises \<open>TypeError\<close> at the
  first line (\<open>+=\<close> of a string and a number), while the parser of
  \<open>conversation/client.py\<close> raises \<open>JSONDecodeError\<close>: \<open>join\<close> runs the generator to its end
  before it looks at the items.\<close>

theorem parsers_raise_different_exceptions:
  \<open>fst (app_parse_response
      \<lparr>unread = [''{"type": "content", "content": 5}'', ''{"type": "content", "content":''],
       close_error = None, close_calls = 0\<rparr>) = Raised TypeError
   \<and> fst (parse_response
      \<lparr>unread = [''{"type": "content", "content": 5}'', ''{"type": "content", "content":''],
       close_error = None, close_calls = 0\<rparr> False) = Raised JSONDecodeError\<close>
  by (simp add: fst_app_parse_response parse_response_aggregate extract_evals str_iadd_def)

text \<open>C10, as amended: on every response stream the parser of \<open>app.py\<close> returns a string \<open>s\<close>
  exactly when the parser of \<open>conversation/client.py\<close> with \<open>chunked = False\<close> returns \<open>s\<close>,
  and the one raises exactly when the other raises; the exceptions need not be the same.\<close>

theorem parsers_return_same_string:
  "(fst (app_parse_response r) = Returned_str s) = (fst (parse_response r False) = Returned_str s)
   \<and> ((\<exists>e. fst (app_parse_response r) = Raised e) = (\<exists>e. fst (parse_response r False) = Raised e))"
proof -
  have ret: "(fst (app_parse_response r) = Returned_str t) = (fst (parse_response r False) = Returned_str t)"
    for t
    using app_parse_loop_returns [of "unread r" "[]" t]
    by (auto simp: fst_app_parse_response parse_response_aggregate split: sum.splits)
  have app_cases: "(\<exists>e. fst (app_parse_response r) = Raised e) = (\<forall>t. fst (app_parse_response r) \<noteq> Returned_str t)"
    by (auto simp: fst_app_parse_response split: sum.splits)
  have cl_cases: "(\<exists>e. fst (parse_response r False) = Raised e)
      = (\<forall>t. fst (parse_response r False) \<noteq> Returned_str t)"
    by (auto simp: parse_response_aggregate split: sum.splits)
  show ?thesis
    using ret app_cases cl_cases by simp
qed

section \<open>Transport failures\<close>

text \<open>C9: if the POST fails before a response arrives (the HTTP library raises instead of
  returning a response), \<open>enter_prompt\<close> raises that same exception to the caller in either
  mode: no string, empty or partial, and no sequence is returned, and no response object
  exists.\<close>

theorem enter_prompt_transport_error:
  assumes "server w (posted_request base_url prompt model web_search provider auto_continue api_key) = Inl e"
  shows "result (enter_prompt w base_url prompt model web_search provider auto_continue api_key chunked) = Raised e
       \<and> response_after (enter_prompt w base_url prompt model web_search provider auto_continue api_key chunked) = None"
  using assms by (simp add: enter_prompt_unfold)

theorem enter_prompt_transport_error_witness:
  "server \<lparr>server = (\<lambda>req. Inl RequestsConnectionError), requests_sent = []\<rparr>
     (posted_request (str ''http://127.0.0.1:8080'') (str ''hello'') [] False [] True None)
     = Inl RequestsConnectionError
   \<and> result (enter_prompt \<lparr>server = (\<lambda>req. Inl RequestsConnectionError), requests_sent = []\<rparr>
        (str ''http://127.0.0.1:8080'') (str ''hello'') [] False [] True None False)
     = Raised RequestsConnectionError
   \<and> response_after (enter_prompt \<lparr>server = (\<lambda>req. Inl RequestsConnectionError), requests_sent = []\<rparr>
        (str ''http://127.0.0.1:8080'') (str ''hello'') [] False [] True None False)
     = None"
  using enter_prompt_transport_error
    [of "\<lparr>server = (\<lambda>req. Inl RequestsConnectionError), requests_sent = []\<rparr>"
        "str ''http://127.0.0.1:8080''" "str ''hello''" "[]" False "[]" True None
        RequestsConnectionError False]
  by simp

end
